theory Spec2Isabelle
  imports Complex_Main "HOL-Library.Product_Lexorder"
begin

section \<open>Time series, pandas objects and the Python heap\<close>

text \<open>
  A timestamp is a Python \<open>datetime\<close> down to the minute: (year, month, day, hour, minute),
  compared lexicographically as \<open>datetime\<close> objects are.
\<close>

type_synonym datetime = "int \<times> int \<times> int \<times> int \<times> int"

type_synonym period = "datetime \<times> datetime"

text \<open>
  A load value is a double: a finite number, kept as the real it stands for, or the
  missing value. A sum or a quotient of two doubles is the exact result rounded to the
  nearest double, a tie going to the even significand. \<open>round_pos\<close> scales a positive
  real by powers of two until it lies between \<open>2 ^ 52\<close> and \<open>2 ^ 53\<close>, where the doubles
  are the integers, rounds it there and scales back. The limits of the exponent (overflow
  to an infinity, subnormal numbers) are not modelled.
\<close>

datatype val = NaN | Num real

definition round_even :: "real \<Rightarrow> int" where
  "round_even q =
     (let n = \<lfloor>q\<rfloor>; r = q - of_int n
      in if r < 1 / 2 then n else if 1 / 2 < r then n + 1 else if even n then n else n + 1)"

function round_pos :: "real \<Rightarrow> real" where
  "round_pos x =
     (if x \<le> 0 then 0
      else if 2 ^ 53 \<le> x then 2 * round_pos (x / 2)
      else if x < 2 ^ 52 then round_pos (2 * x) / 2
      else of_int (round_even x))"
  by pat_completeness auto
termination
proof (relation "measure (\<lambda>x. if 2 ^ 53 \<le> x then nat \<lfloor>x\<rfloor>
    else if 0 < x then nat \<lfloor>2 ^ 53 / x\<rfloor> else 0)")
  show "wf (measure (\<lambda>x::real. if 2 ^ 53 \<le> x then nat \<lfloor>x\<rfloor>
      else if 0 < x then nat \<lfloor>2 ^ 53 / x\<rfloor> else 0))"
    by simp
next
  fix x :: real
  assume "\<not> x \<le> 0" and big: "2 ^ 53 \<le> x"
  have whole: "2 ^ 53 \<le> \<lfloor>x\<rfloor>"
    using big by (simp add: le_floor_iff)
  have "\<lfloor>x / 2\<rfloor> + 1 = \<lfloor>x / 2 + 1\<rfloor>"
    by simp
  also have "\<dots> \<le> \<lfloor>x\<rfloor>"
    using big by (intro floor_mono) simp
  finally have halved: "\<lfloor>x / 2\<rfloor> < \<lfloor>x\<rfloor>"
    by simp
  have "2 ^ 53 / (x / 2) \<le> 2"
    using big by (simp add: field_simps)
  then have "\<lfloor>2 ^ 53 / (x / 2)\<rfloor> \<le> \<lfloor>2 :: real\<rfloor>"
    by (rule floor_mono)
  also have "\<lfloor>2 :: real\<rfloor> < (2 :: int) ^ 53"
    by simp
  also note whole
  finally have small: "\<lfloor>2 ^ 53 / (x / 2)\<rfloor> < \<lfloor>x\<rfloor>" .
  from halved small whole big
  show "(x / 2, x) \<in> measure (\<lambda>x. if 2 ^ 53 \<le> x then nat \<lfloor>x\<rfloor>
      else if 0 < x then nat \<lfloor>2 ^ 53 / x\<rfloor> else 0)"
    by auto
next
  fix x :: real
  assume pos: "\<not> x \<le> 0" and "\<not> 2 ^ 53 \<le> x" and low: "x < 2 ^ 52"
  let ?y = "2 ^ 52 / x"
  from pos low have y: "1 < ?y"
    by (simp add: field_simps)
  have "\<lfloor>?y\<rfloor> + 1 = \<lfloor>?y + 1\<rfloor>"
    by simp
  also have "\<dots> \<le> \<lfloor>2 * ?y\<rfloor>"
    using y by (intro floor_mono) simp
  finally have less: "\<lfloor>?y\<rfloor> < \<lfloor>2 * ?y\<rfloor>"
    by simp
  have "1 \<le> \<lfloor>?y\<rfloor>"
    using y by (simp add: le_floor_iff)
  then have "0 \<le> \<lfloor>?y\<rfloor>"
    by linarith
  with less have "nat \<lfloor>?y\<rfloor> < nat \<lfloor>2 * ?y\<rfloor>"
    by linarith
  moreover have "2 ^ 53 / (2 * x) = ?y" and "2 ^ 53 / x = 2 * ?y"
    by simp_all
  ultimately show "(2 * x, x) \<in> measure (\<lambda>x. if 2 ^ 53 \<le> x then nat \<lfloor>x\<rfloor>
      else if 0 < x then nat \<lfloor>2 ^ 53 / x\<rfloor> else 0)"
    using pos low by simp
qed

declare round_pos.simps [simp del]

definition round_double :: "real \<Rightarrow> real" where
  "round_double x = (if x < 0 then - round_pos (- x) else round_pos x)"

text \<open>\<open>x + y\<close> on two values; the missing value absorbs.\<close>

fun add_val :: "val \<Rightarrow> val \<Rightarrow> val" where
  "add_val (Num x) (Num y) = Num (round_double (x + y))"
| "add_val _ _ = NaN"

text \<open>
  Division of a value by a count. By zero pandas gives an infinity or the missing value;
  infinities are outside \<open>val\<close>, and the one division of this module never has a zero
  divisor.
\<close>

fun div_val :: "val \<Rightarrow> nat \<Rightarrow> val" where
  "div_val (Num x) n = (if n = 0 then NaN else Num (round_double (x / real n)))"
| "div_val NaN n = NaN"

text \<open>
  The data of a pandas series: its rows in index order, each a timestamp with its value.
\<close>

type_synonym frame = "(datetime \<times> val) list"

text \<open>
  pandas objects live on the heap. A buffer holds the rows; an object is a buffer address
  with the label slices taken so far, so that a slice of an object is a view that shares
  the buffer of the object it was cut from, and a write through either is seen by both.
\<close>

type_synonym addr = nat

datatype pdobj = PdObj (buf: addr) (windows: "period list")

definition visible :: "datetime \<Rightarrow> period list \<Rightarrow> bool" where
  "visible t ws = list_all (\<lambda>p. fst p \<le> t \<and> t \<le> snd p) ws"

definition deref :: "(addr \<Rightarrow> frame) \<Rightarrow> pdobj \<Rightarrow> frame" where
  "deref h obj = filter (\<lambda>row. visible (fst row) (windows obj)) (h (buf obj))"

text \<open>
  \<open>obj[start:end]\<close> with timestamp labels: both ends inclusive, no data copied. This is
  the slice of an index in increasing order, as a time series has it; on an index out of
  order pandas slices by the positions of the labels or raises \<open>KeyError\<close>, which is not
  modelled.
\<close>

definition getslice :: "pdobj \<Rightarrow> period \<Rightarrow> pdobj" where
  "getslice obj p = PdObj (buf obj) (windows obj @ [p])"


text \<open>
  Exceptions. \<open>KeyError\<close> is the spec's UnknownIdentifier, \<open>IndexError\<close> its
  EmptyIdentifierSet, \<open>ClosedFileError\<close> its StoreClosed.
\<close>

datatype exn = KeyError | IndexError | AttributeError | ClosedFileError

section \<open>The HDF5 file and the class UserLoads\<close>

text \<open>
  The HDF5 file as far as the module reads it: the entries \<open>user_ids\<close> and
  \<open>user_ids_cln_pred_exp\<close>, and the table stored under \<open>"id_" + str(user_id)\<close>, keyed here
  by the user id itself.
\<close>

record hdf_file =
  user_ids_entry :: "int list"
  user_ids_cln_pred_exp_entry :: "int list"
  id_tables :: "int \<rightharpoonup> frame"

text \<open>
  A \<open>UserLoads\<close> object with the part of the Python heap that holds its pandas objects.
  \<open>user_ids\<close> is \<open>_user_ids\<close> in some iteration order, \<open>loads\<close> is the dict \<open>_loads\<close>
  (its values are references), \<open>store_file\<close> and \<open>store_open\<close> are \<open>_store\<close>.
  \<open>next_addr\<close> is the first address never allocated. \<open>store_reads\<close> records every
  \<open>self._store["id_..."]\<close> that was evaluated, in order.
\<close>

record userloads =
  store_file :: hdf_file
  store_open :: bool
  user_ids :: "int list"
  loads :: "int \<rightharpoonup> pdobj"
  heap :: "addr \<Rightarrow> frame"
  next_addr :: addr
  store_reads :: "int list"

text \<open>
  \<open>__init__\<close> of \<open>UserLoads\<close> and of \<open>UserLoads_Experiment\<close>, on a file that opens. The
  ids are a Python set, listed by \<open>user_ids\<close> in the set's iteration order; here that order
  is the order of first occurrence in the file, and no result below depends on it.
\<close>

definition UserLoads :: "hdf_file \<Rightarrow> userloads" where
  "UserLoads file =
     \<lparr>store_file = file, store_open = True, user_ids = remdups (user_ids_entry file),
      loads = Map.empty, heap = (\<lambda>a. []), next_addr = 0, store_reads = []\<rparr>"

definition UserLoads_Experiment :: "hdf_file \<Rightarrow> userloads" where
  "UserLoads_Experiment file =
     \<lparr>store_file = file, store_open = True,
      user_ids = remdups (user_ids_cln_pred_exp_entry file),
      loads = Map.empty, heap = (\<lambda>a. []), next_addr = 0, store_reads = []\<rparr>"

definition close :: "userloads \<Rightarrow> userloads" where
  "close ul = ul\<lparr>store_open := False\<rparr>"

definition len :: "userloads \<Rightarrow> nat" where
  "len ul = length (user_ids ul)"

text \<open>
  \<open>self._store["id_" + str(user_id)]\<close>: pandas raises on a closed file and on a key the
  file does not hold; otherwise it builds a new object from the stored table.
\<close>

definition store_getitem :: "userloads \<Rightarrow> int \<Rightarrow> (exn + pdobj) \<times> userloads" where
  "store_getitem ul user_id =
     (let ul1 = ul\<lparr>store_reads := store_reads ul @ [user_id]\<rparr> in
      if \<not> store_open ul then (Inl ClosedFileError, ul1)
      else case id_tables (store_file ul) user_id of
             None \<Rightarrow> (Inl KeyError, ul1)
           | Some f \<Rightarrow>
               (Inr (PdObj (next_addr ul) []),
                ul1\<lparr>heap := (heap ul)(next_addr ul := f), next_addr := Suc (next_addr ul)\<rparr>))"

definition read :: "userloads \<Rightarrow> int \<Rightarrow> (exn + pdobj) \<times> userloads" where
  "read ul user_id =
     (if user_id \<notin> set (user_ids ul) then (Inl KeyError, ul)
      else case store_getitem ul user_id of
             (Inl e, ul1) \<Rightarrow> (Inl e, ul1)
           | (Inr user_load, ul1) \<Rightarrow>
               (Inr user_load, ul1\<lparr>loads := (loads ul1)(user_id \<mapsto> user_load)\<rparr>))"

text \<open>\<open>read_all\<close>: the loop over \<open>self.user_ids\<close> ends at the first exception.\<close>

fun read_each :: "userloads \<Rightarrow> int list \<Rightarrow> (exn + unit) \<times> userloads" where
  "read_each ul [] = (Inr (), ul)"
| "read_each ul (user_id # rest) =
     (case read ul user_id of
        (Inl e, ul1) \<Rightarrow> (Inl e, ul1)
      | (Inr _, ul1) \<Rightarrow> read_each ul1 rest)"

definition read_all :: "userloads \<Rightarrow> (exn + unit) \<times> userloads" where
  "read_all ul = read_each ul (user_ids ul)"

definition getitem :: "userloads \<Rightarrow> int \<Rightarrow> (exn + pdobj) \<times> userloads" where
  "getitem ul user_id =
     (case loads ul user_id of
        None \<Rightarrow> read ul user_id
      | Some user_load \<Rightarrow> (Inr user_load, ul))"

definition setitem :: "userloads \<Rightarrow> int \<Rightarrow> pdobj \<Rightarrow> (exn + unit) \<times> userloads" where
  "setitem ul user_id user_load =
     (if user_id \<notin> set (user_ids ul) then (Inl KeyError, ul)
      else (Inr (), ul\<lparr>loads := (loads ul)(user_id \<mapsto> user_load)\<rparr>))"

text \<open>
  \<open>pop\<close>: after the check and the read of an absent entry, \<open>self._loads.pop(user_id)\<close>
  returns the entry and removes it (a \<open>KeyError\<close> if there were none).
\<close>

definition pop :: "userloads \<Rightarrow> int \<Rightarrow> (exn + pdobj) \<times> userloads" where
  "pop ul user_id =
     (if user_id \<notin> set (user_ids ul) then (Inl KeyError, ul)
      else case (case loads ul user_id of
                   None \<Rightarrow> read ul user_id
                 | Some user_load \<Rightarrow> (Inr user_load, ul)) of
             (Inl e, ul1) \<Rightarrow> (Inl e, ul1)
           | (Inr _, ul1) \<Rightarrow>
               (case loads ul1 user_id of
                  None \<Rightarrow> (Inl KeyError, ul1)
                | Some user_load \<Rightarrow> (Inr user_load, ul1\<lparr>loads := (loads ul1)(user_id := None)\<rparr>)))"

text \<open>
  \<open>__contains__\<close> evaluates \<open>self.user_id\<close>. The class and its instances have the
  attributes \<open>_path\<close>, \<open>_store\<close>, \<open>_user_ids\<close>, \<open>_loads\<close>, the methods and the properties
  \<open>user_ids\<close>, \<open>loads\<close> and \<open>path\<close>; there is no \<open>user_id\<close> and no \<open>__getattr__\<close>, so the
  attribute lookup raises before any membership test is made.
\<close>

definition contains :: "userloads \<Rightarrow> int \<Rightarrow> exn + bool" where
  "contains ul user_id = Inl AttributeError"

section \<open>Aggregation\<close>

definition experiment_periods :: "period list" where
  "experiment_periods =
     [((2004, 2, 1, 0, 0), (2005, 7, 1, 0, 0)), ((2005, 10, 1, 0, 0), (2006, 10, 1, 0, 0))]"

text \<open>\<open>obj.copy()\<close>: a new buffer holding the rows the object shows.\<close>

definition copy :: "userloads \<Rightarrow> pdobj \<Rightarrow> pdobj \<times> userloads" where
  "copy ul obj =
     (PdObj (next_addr ul) [],
      ul\<lparr>heap := (heap ul)(next_addr ul := deref (heap ul) obj),
         next_addr := Suc (next_addr ul)\<rparr>)"

text \<open>
  \<open>total += other\<close>: the sum aligned on timestamps is written into the left operand,
  which keeps its own index; a timestamp the right operand lacks gives the missing value.
  The write goes to the buffer, at the rows the left operand shows. The right operand is
  looked up by timestamp, which is pandas' alignment when no timestamp occurs twice.
\<close>

definition lookup_val :: "frame \<Rightarrow> datetime \<Rightarrow> val" where
  "lookup_val g t = (case map_of g t of None \<Rightarrow> NaN | Some v \<Rightarrow> v)"

definition iadd_frame :: "period list \<Rightarrow> frame \<Rightarrow> frame \<Rightarrow> frame" where
  "iadd_frame ws f g =
     map (\<lambda>row. if visible (fst row) ws
               then (fst row, add_val (snd row) (lookup_val g (fst row))) else row) f"

definition iadd :: "userloads \<Rightarrow> pdobj \<Rightarrow> pdobj \<Rightarrow> userloads" where
  "iadd ul tot other =
     ul\<lparr>heap := (heap ul)(buf tot :=
           iadd_frame (windows tot) (heap ul (buf tot)) (deref (heap ul) other))\<rparr>"

text \<open>
  \<open>total_load\<close>. The list comprehension reads each user's load through \<open>__getitem__\<close> and
  slices it; an exception leaves the loads read so far in the cache.
\<close>

fun load_slices :: "userloads \<Rightarrow> int list \<Rightarrow> period \<Rightarrow> (exn + pdobj list) \<times> userloads" where
  "load_slices ul [] p = (Inr [], ul)"
| "load_slices ul (user # rest) p =
     (case getitem ul user of
        (Inl e, ul1) \<Rightarrow> (Inl e, ul1)
      | (Inr obj, ul1) \<Rightarrow>
          (case load_slices ul1 rest p of
             (Inl e, ul2) \<Rightarrow> (Inl e, ul2)
           | (Inr objs, ul2) \<Rightarrow> (Inr (getslice obj p # objs), ul2)))"

fun iadd_each :: "userloads \<Rightarrow> pdobj \<Rightarrow> pdobj list \<Rightarrow> userloads" where
  "iadd_each ul tot [] = ul"
| "iadd_each ul tot (single_series # rest) = iadd_each (iadd ul tot single_series) tot rest"

definition total_load :: "userloads \<Rightarrow> int list \<Rightarrow> period \<Rightarrow> (exn + pdobj) \<times> userloads" where
  "total_load ul ids p =
     (case load_slices ul ids p of
        (Inl e, ul1) \<Rightarrow> (Inl e, ul1)
      | (Inr series, ul1) \<Rightarrow>
          (case series of
             [] \<Rightarrow> (Inl IndexError, ul1)
           | first # rest \<Rightarrow>
               (case copy ul1 first of
                  (tot, ul2) \<Rightarrow> (Inr tot, iadd_each ul2 tot rest))))"

fun total_load_each ::
  "userloads \<Rightarrow> int list \<Rightarrow> period list \<Rightarrow> (exn + pdobj list) \<times> userloads" where
  "total_load_each ul ids [] = (Inr [], ul)"
| "total_load_each ul ids (p # ps) =
     (case total_load ul ids p of
        (Inl e, ul1) \<Rightarrow> (Inl e, ul1)
      | (Inr t, ul1) \<Rightarrow>
          (case total_load_each ul1 ids ps of
             (Inl e, ul2) \<Rightarrow> (Inl e, ul2)
           | (Inr ts, ul2) \<Rightarrow> (Inr (t # ts), ul2)))"

definition total_load_in_experiment_periods ::
  "userloads \<Rightarrow> int list \<Rightarrow> (exn + pdobj list) \<times> userloads" where
  "total_load_in_experiment_periods ul ids = total_load_each ul ids experiment_periods"

section \<open>The mean load of a random subset of users\<close>

text \<open>
  The module's global state: the variable \<open>_tempfeeder_exp\<close> and the state of numpy's
  global random generator, of a type \<open>'r\<close> left open.
\<close>

record 'r module_state =
  tempfeeder_exp_var :: "userloads option"
  np_random_state :: 'r

definition tempfeeder_exp :: "hdf_file \<Rightarrow> userloads option \<Rightarrow> userloads" where
  "tempfeeder_exp file var = (case var of None \<Rightarrow> UserLoads_Experiment file | Some ul \<Rightarrow> ul)"

text \<open>\<open>xs[:n]\<close>: a negative \<open>n\<close> counts from the end.\<close>

definition py_prefix :: "'a list \<Rightarrow> int \<Rightarrow> 'a list" where
  "py_prefix xs n = (if 0 \<le> n then take (nat n) xs else take (length xs - nat (- n)) xs)"

text \<open>
  Lines 323 to 325 of the source: the seed, drawn from the global generator when none is
  given, and the first \<open>num_users\<close> elements of the seeded permutation of the ids.
  numpy's \<open>RandomState(seed).permutation\<close> and \<open>np.random.randint\<close> are parameters:
  \<open>permutation seed xs\<close> is the permutation of \<open>xs\<close> a new generator seeded with \<open>seed\<close>
  returns; \<open>randint rs lo hi\<close> draws from the global generator in state \<open>rs\<close> and returns
  the new state with the number.
\<close>

definition random_identifier_subset ::
  "(int \<Rightarrow> int list \<Rightarrow> int list) \<Rightarrow> ('r \<Rightarrow> int \<Rightarrow> int \<Rightarrow> int \<times> 'r) \<Rightarrow>
   'r \<Rightarrow> int list \<Rightarrow> int \<Rightarrow> int option \<Rightarrow> int list \<times> 'r" where
  "random_identifier_subset permutation randint rs all_ids num_users seed =
     (case seed of
        None \<Rightarrow>
          (case randint rs 1 (2 ^ 16) of
             (s, rs1) \<Rightarrow> (py_prefix (permutation s all_ids) num_users, rs1))
      | Some s \<Rightarrow> (py_prefix (permutation s all_ids) num_users, rs))"

text \<open>\<open>l / n\<close>: a new object, each value divided by \<open>n\<close>.\<close>

definition div_frame :: "frame \<Rightarrow> nat \<Rightarrow> frame" where
  "div_frame f n = map (\<lambda>row. (fst row, div_val (snd row) n)) f"

definition truediv :: "userloads \<Rightarrow> pdobj \<Rightarrow> nat \<Rightarrow> pdobj \<times> userloads" where
  "truediv ul obj n =
     (PdObj (next_addr ul) [],
      ul\<lparr>heap := (heap ul)(next_addr ul := div_frame (deref (heap ul) obj) n),
         next_addr := Suc (next_addr ul)\<rparr>)"

fun truediv_each :: "userloads \<Rightarrow> pdobj list \<Rightarrow> nat \<Rightarrow> pdobj list \<times> userloads" where
  "truediv_each ul [] n = ([], ul)"
| "truediv_each ul (l # ls) n =
     (case truediv ul l n of
        (m, ul1) \<Rightarrow> (case truediv_each ul1 ls n of (ms, ul2) \<Rightarrow> (m # ms, ul2)))"

definition mean_experiment_load_for_user_subset ::
  "(int \<Rightarrow> int list \<Rightarrow> int list) \<Rightarrow> ('r \<Rightarrow> int \<Rightarrow> int \<Rightarrow> int \<times> 'r) \<Rightarrow> hdf_file \<Rightarrow>
   'r module_state \<Rightarrow> int \<Rightarrow> int option \<Rightarrow> (exn + pdobj list) \<times> 'r module_state" where
  "mean_experiment_load_for_user_subset permutation randint file ms num_users seed =
     (let ul = tempfeeder_exp file (tempfeeder_exp_var ms) in
      case random_identifier_subset permutation randint (np_random_state ms)
             (user_ids ul) num_users seed of
        (ids, rs1) \<Rightarrow>
          (case total_load_in_experiment_periods ul ids of
             (Inl e, ul1) \<Rightarrow>
               (Inl e, \<lparr>tempfeeder_exp_var = Some ul1, np_random_state = rs1\<rparr>)
           | (Inr totals, ul1) \<Rightarrow>
               (case truediv_each ul1 totals (length ids) of
                  (means, ul2) \<Rightarrow>
                    (Inr means, \<lparr>tempfeeder_exp_var = Some ul2, np_random_state = rs1\<rparr>))))"

section \<open>Invariants, reachable states and example data\<close>

text \<open>Every key of the overlay is one of the store's user ids.\<close>

definition overlay_valid :: "userloads \<Rightarrow> bool" where
  "overlay_valid ul = (dom (loads ul) \<subseteq> set (user_ids ul))"

text \<open>
  The states a cache goes through: built by a constructor with an empty overlay, then
  changed by the subscript operator, assignment, \<open>read\<close>, \<open>read_all\<close>, \<open>pop\<close> and \<open>close\<close>,
  whether the call returns or raises.
\<close>

inductive reachable :: "hdf_file \<Rightarrow> userloads \<Rightarrow> bool" for hfile :: hdf_file where
  reach_UserLoads: "reachable hfile (UserLoads hfile)"
| reach_UserLoads_Experiment: "reachable hfile (UserLoads_Experiment hfile)"
| reach_getitem: "reachable hfile ul \<Longrightarrow> reachable hfile (snd (getitem ul user_id))"
| reach_setitem: "reachable hfile ul \<Longrightarrow> reachable hfile (snd (setitem ul user_id user_load))"
| reach_read: "reachable hfile ul \<Longrightarrow> reachable hfile (snd (read ul user_id))"
| reach_read_all: "reachable hfile ul \<Longrightarrow> reachable hfile (snd (read_all ul))"
| reach_pop: "reachable hfile ul \<Longrightarrow> reachable hfile (snd (pop ul user_id))"
| reach_close: "reachable hfile ul \<Longrightarrow> reachable hfile (close ul)"

text \<open>Every cached object lies in allocated memory.\<close>

definition heap_wf :: "userloads \<Rightarrow> bool" where
  "heap_wf ul = (\<forall>obj \<in> ran (loads ul). buf obj < next_addr ul)"

text \<open>The rows \<open>userloads[user_id]\<close> would return now, if it returns.\<close>

definition get_value :: "userloads \<Rightarrow> int \<Rightarrow> frame option" where
  "get_value ul user_id =
     (case getitem ul user_id of
        (Inl e, ul1) \<Rightarrow> None
      | (Inr obj, ul1) \<Rightarrow> Some (deref (heap ul1) obj))"



text \<open>
  How a call that only allocates relates the state before to the state after: allocated
  buffers and cached entries stay, the store is the same.
\<close>

definition extends :: "userloads \<Rightarrow> userloads \<Rightarrow> bool" where
  "extends ul ul1 \<longleftrightarrow>
     next_addr ul \<le> next_addr ul1 \<and> (\<forall>a<next_addr ul. heap ul1 a = heap ul a) \<and>
     (\<forall>k obj. loads ul k = Some obj \<longrightarrow> loads ul1 k = Some obj) \<and>
     user_ids ul1 = user_ids ul \<and> store_file ul1 = store_file ul \<and>
     store_open ul1 = store_open ul"

text \<open>
  A small file: three users, two of them in the experiment subset, with hourly loads in
  the first and in the second experiment period; and the cache after user 2 was read.
\<close>

definition example_file :: hdf_file where
  "example_file =
     \<lparr>user_ids_entry = [1, 2, 3], user_ids_cln_pred_exp_entry = [1, 2],
      id_tables = [1 \<mapsto> [((2004, 3, 1, 0, 0), Num 6), ((2006, 3, 1, 0, 0), Num 3)],
                   2 \<mapsto> [((2004, 3, 1, 0, 0), Num 6), ((2006, 3, 1, 0, 0), Num 9)],
                   3 \<mapsto> [((2004, 3, 1, 0, 0), Num 1)]]\<rparr>"

definition example_cache :: userloads where
  "example_cache = snd (getitem (UserLoads example_file) 2)"

text \<open>
  The rows of the series a call returned, read in the state it left; and the rows of a
  list of series divided by a count, as the spec's mean divides the totals.
\<close>

definition total_rows :: "(exn + pdobj list) \<times> userloads \<Rightarrow> exn + frame list" where
  "total_rows res =
     (case res of
        (Inl e, ul) \<Rightarrow> Inl e
      | (Inr objs, ul) \<Rightarrow> Inr (map (deref (heap ul)) objs))"

definition mean_rows :: "(exn + pdobj list) \<times> 'r module_state \<Rightarrow> exn + frame list" where
  "mean_rows res =
     (case res of
        (Inl e, ms) \<Rightarrow> Inl e
      | (Inr objs, ms) \<Rightarrow>
          (case tempfeeder_exp_var ms of
             None \<Rightarrow> Inr []
           | Some ul \<Rightarrow> Inr (map (deref (heap ul)) objs)))"

definition divided_rows :: "exn + frame list \<Rightarrow> nat \<Rightarrow> exn + frame list" where
  "divided_rows rows n =
     (case rows of
        Inl e \<Rightarrow> Inl e
      | Inr fs \<Rightarrow> Inr (map (\<lambda>f. div_frame f n) fs))"

text \<open>
  A module state before the first call, and stand-ins for numpy: a permutation that
  rotates by the seed, a global generator that counts its draws.
\<close>

definition example_module :: "nat module_state" where
  "example_module = \<lparr>tempfeeder_exp_var = None, np_random_state = 0\<rparr>"

definition example_permutation :: "int \<Rightarrow> int list \<Rightarrow> int list" where
  "example_permutation seed xs = rotate (nat seed) xs"

definition example_randint :: "nat \<Rightarrow> int \<Rightarrow> int \<Rightarrow> int \<times> nat" where
  "example_randint rs lo hi = (lo + int rs mod (hi - lo), Suc rs)"

text \<open>
  \<open>userloads.loads[user_id] = user_load\<close>: the property \<open>loads\<close> returns the dict \<open>_loads\<close>
  itself, so an assignment through it changes the overlay with no check.
\<close>

definition loads_setitem :: "userloads \<Rightarrow> int \<Rightarrow> pdobj \<Rightarrow> userloads" where
  "loads_setitem ul user_id user_load = ul\<lparr>loads := (loads ul)(user_id \<mapsto> user_load)\<rparr>"




section \<open>Results\<close>

lemmas example_defs = example_file_def UserLoads_def UserLoads_Experiment_def

lemmas round_defs = round_double_def round_pos.simps round_even_def

lemma example_cache_eq:
  "example_cache =
     \<lparr>store_file = example_file, store_open = True, user_ids = [1, 2, 3],
      loads = [2 \<mapsto> PdObj 0 []],
      heap = (\<lambda>a. [])(0 := [((2004, 3, 1, 0, 0), Num 6), ((2006, 3, 1, 0, 0), Num 9)]),
      next_addr = 1, store_reads = [2]\<rparr>"
  by (simp add: example_cache_def getitem_def read_def store_getitem_def UserLoads_def)
    (simp add: example_file_def)


text \<open>
  C2. The total load over an empty list of users fails, whatever the cache and the period:
  \<open>series[0]\<close> on the empty list raises \<open>IndexError\<close> (the spec's EmptyIdentifierSet), no
  series is returned, and the cache is as it was.
\<close>

theorem total_load_empty_ids:
  "total_load ul [] p = (Inl IndexError, ul)"
  by (simp add: total_load_def)

subsection \<open>The overlay cache\<close>

lemma store_getitem_reads:
  "store_reads (snd (store_getitem ul user_id)) = store_reads ul @ [user_id]"
  by (simp add: store_getitem_def Let_def split: option.splits)

text \<open>
  C1. For a user id of the store with no overlay entry, \<open>userloads[user_id]\<close> evaluates
  \<open>self._store[...]\<close> exactly once, for that id. When the store is open and holds the
  table \<open>f\<close>, the call returns an object with exactly the rows \<open>f\<close>, the overlay gets that
  object under the id and is otherwise as before, and the next \<open>userloads[user_id]\<close>
  returns the same object and leaves the state, and so the record of store reads, as it is.
\<close>

theorem getitem_reads_once_then_cached:
  assumes "user_id \<in> set (user_ids ul)" and "loads ul user_id = None"
  shows "store_reads (snd (getitem ul user_id)) = store_reads ul @ [user_id] \<and>
         (\<forall>f. store_open ul \<and> id_tables (store_file ul) user_id = Some f \<longrightarrow>
            (\<exists>obj ul1. getitem ul user_id = (Inr obj, ul1) \<and>
               deref (heap ul1) obj = f \<and>
               loads ul1 = (loads ul)(user_id \<mapsto> obj) \<and>
               getitem ul1 user_id = (Inr obj, ul1)))"
  using assms
  by (auto simp: getitem_def read_def store_getitem_def Let_def deref_def visible_def
      split: option.splits)

theorem getitem_reads_once_then_cached_witness:
  "1 \<in> set (user_ids (UserLoads example_file)) \<and> loads (UserLoads example_file) 1 = None \<and>
   store_open (UserLoads example_file) \<and>
   store_reads (snd (getitem (UserLoads example_file) 1)) = [1] \<and>
   (\<exists>obj ul1. getitem (UserLoads example_file) 1 = (Inr obj, ul1) \<and>
      deref (heap ul1) obj = [((2004, 3, 1, 0, 0), Num 6), ((2006, 3, 1, 0, 0), Num 3)] \<and>
      loads ul1 = (loads (UserLoads example_file))(1 \<mapsto> obj) \<and>
      getitem ul1 1 = (Inr obj, ul1))"
proof -
  let ?ul = "UserLoads example_file"
  have valid: "1 \<in> set (user_ids ?ul)" and absent: "loads ?ul 1 = None"
    by (simp_all add: example_defs)
  have stored: "store_open ?ul \<and> id_tables (store_file ?ul) 1 =
      Some [((2004, 3, 1, 0, 0), Num 6), ((2006, 3, 1, 0, 0), Num 3)]"
    by (simp add: example_defs)
  have log: "store_reads ?ul = []"
    by (simp add: example_defs)
  from getitem_reads_once_then_cached [OF valid absent] stored log
  show ?thesis
    using valid absent by auto
qed

text \<open>
  C3. \<open>__contains__\<close> does not return a truth value: on the example store, which holds
  user 1, \<open>1 in userloads\<close> raises \<open>AttributeError\<close>.
\<close>

theorem contains_raises:
  "1 \<in> set (user_ids (UserLoads example_file)) \<and>
   contains (UserLoads example_file) 1 \<noteq> Inr True \<and>
   contains (UserLoads example_file) 1 = Inl AttributeError"
  by (simp add: contains_def example_defs)

text \<open>
  C7. For a user id of an open store that holds the table \<open>f\<close>, and any object \<open>v\<close>:
  after \<open>userloads[user_id] = v\<close> the overlay holds \<open>v\<close>; \<open>read(user_id)\<close> then returns a
  newly allocated object with exactly the rows \<open>f\<close> and caches it in place of \<open>v\<close>, and the
  next \<open>userloads[user_id]\<close> returns that object.
\<close>

theorem read_after_setitem_discards:
  assumes "user_id \<in> set (user_ids ul)" and "store_open ul"
    and "id_tables (store_file ul) user_id = Some f"
  shows "\<exists>ul1 obj ul2.
           setitem ul user_id v = (Inr (), ul1) \<and> loads ul1 user_id = Some v \<and>
           read ul1 user_id = (Inr obj, ul2) \<and> obj = PdObj (next_addr ul) [] \<and>
           deref (heap ul2) obj = f \<and> loads ul2 user_id = Some obj \<and>
           getitem ul2 user_id = (Inr obj, ul2)"
  using assms
  by (simp add: setitem_def getitem_def read_def store_getitem_def Let_def deref_def visible_def)

theorem read_after_setitem_discards_witness:
  "1 \<in> set (user_ids example_cache) \<and> store_open example_cache \<and>
   (\<exists>ul1 obj ul2.
      setitem example_cache 1 (PdObj 0 []) = (Inr (), ul1) \<and>
      loads ul1 1 = Some (PdObj 0 []) \<and>
      read ul1 1 = (Inr obj, ul2) \<and> obj = PdObj 1 [] \<and>
      deref (heap ul2) obj = [((2004, 3, 1, 0, 0), Num 6), ((2006, 3, 1, 0, 0), Num 3)] \<and>
      loads ul2 1 = Some obj \<and> getitem ul2 1 = (Inr obj, ul2))"
proof -
  have valid: "1 \<in> set (user_ids example_cache)" and opened: "store_open example_cache"
    by (simp_all add: example_cache_eq)
  have stored: "id_tables (store_file example_cache) 1 =
      Some [((2004, 3, 1, 0, 0), Num 6), ((2006, 3, 1, 0, 0), Num 3)]"
    by (simp add: example_cache_eq example_file_def)
  have next_free: "next_addr example_cache = 1"
    by (simp add: example_cache_eq)
  from read_after_setitem_discards [OF valid opened stored, of "PdObj 0 []"] next_free
  show ?thesis
    using valid opened by simp
qed

lemma read_overlay_valid: "overlay_valid ul \<Longrightarrow> overlay_valid (snd (read ul user_id))"
  by (auto simp: overlay_valid_def read_def store_getitem_def Let_def split: option.splits)

lemma read_each_overlay_valid: "overlay_valid ul \<Longrightarrow> overlay_valid (snd (read_each ul ids))"
proof (induction ids arbitrary: ul)
  case Nil
  then show ?case by simp
next
  case (Cons user_id rest)
  from Cons.prems have v: "overlay_valid (snd (read ul user_id))"
    by (rule read_overlay_valid)
  show ?case
  proof (cases "read ul user_id")
    case (Pair r ul1)
    with v have "overlay_valid ul1" by simp
    with Pair Cons.IH [of ul1] show ?thesis
      by (cases r) simp_all
  qed
qed

lemma getitem_overlay_valid: "overlay_valid ul \<Longrightarrow> overlay_valid (snd (getitem ul user_id))"
  using read_overlay_valid [of ul user_id] by (simp add: getitem_def split: option.splits)

lemma setitem_overlay_valid:
  "overlay_valid ul \<Longrightarrow> overlay_valid (snd (setitem ul user_id user_load))"
  by (auto simp: overlay_valid_def setitem_def)

lemma pop_overlay_valid: "overlay_valid ul \<Longrightarrow> overlay_valid (snd (pop ul user_id))"
  by (auto simp: overlay_valid_def pop_def read_def store_getitem_def Let_def
      split: option.splits if_splits)

lemma reachable_keys_valid: "reachable hfile ul \<Longrightarrow> overlay_valid ul"
proof (induction rule: reachable.induct)
  case reach_UserLoads
  show ?case by (simp add: overlay_valid_def UserLoads_def)
next
  case reach_UserLoads_Experiment
  show ?case by (simp add: overlay_valid_def UserLoads_Experiment_def)
next
  case (reach_getitem ul user_id)
  then show ?case by (simp add: getitem_overlay_valid)
next
  case (reach_setitem ul user_id user_load)
  then show ?case by (simp add: setitem_overlay_valid)
next
  case (reach_read ul user_id)
  then show ?case by (simp add: read_overlay_valid)
next
  case (reach_read_all ul)
  then show ?case by (simp add: read_all_def read_each_overlay_valid)
next
  case (reach_pop ul user_id)
  then show ?case by (simp add: pop_overlay_valid)
next
  case (reach_close ul)
  then show ?case by (simp add: overlay_valid_def close_def)
qed

text \<open>
  C8, as amended. For a user id that is not one of the store's: assignment and \<open>pop\<close> test
  the id against the store's ids first and raise \<open>KeyError\<close> (the spec's UnknownIdentifier)
  whatever the overlay holds. The subscript operator looks in the overlay first: when the
  id has no entry there it raises \<open>KeyError\<close>, and that is so in every state a cache reaches
  from a constructor through the subscript operator, assignment, \<open>read\<close>, \<open>read_all\<close>, \<open>pop\<close>
  and \<open>close\<close>; when the overlay has an entry it returns the entry. Where \<open>KeyError\<close> is
  raised the state is the state before the call: no read of the store was attempted.
\<close>

theorem invalid_id_raises_KeyError:
  assumes "user_id \<notin> set (user_ids ul)"
  shows "setitem ul user_id v = (Inl KeyError, ul) \<and> pop ul user_id = (Inl KeyError, ul) \<and>
         (loads ul user_id = None \<longrightarrow> getitem ul user_id = (Inl KeyError, ul)) \<and>
         (reachable hfile ul \<longrightarrow> getitem ul user_id = (Inl KeyError, ul)) \<and>
         (\<forall>obj. loads ul user_id = Some obj \<longrightarrow> getitem ul user_id = (Inr obj, ul))"
proof -
  have absent: "getitem ul user_id = (Inl KeyError, ul)" if "loads ul user_id = None"
    using that assms by (simp add: getitem_def read_def)
  have "loads ul user_id = None" if "reachable hfile ul"
    using reachable_keys_valid [OF that] assms by (auto simp: overlay_valid_def)
  with absent have "reachable hfile ul \<longrightarrow> getitem ul user_id = (Inl KeyError, ul)"
    by simp
  with absent assms show ?thesis
    by (simp add: setitem_def pop_def getitem_def)
qed

theorem invalid_id_raises_KeyError_witness:
  "4 \<notin> set (user_ids example_cache) \<and> loads example_cache 4 = None \<and>
   reachable example_file example_cache \<and>
   setitem example_cache 4 (PdObj 0 []) = (Inl KeyError, example_cache) \<and>
   pop example_cache 4 = (Inl KeyError, example_cache) \<and>
   getitem example_cache 4 = (Inl KeyError, example_cache)"
proof -
  have invalid: "4 \<notin> set (user_ids example_cache)" and absent: "loads example_cache 4 = None"
    by (simp_all add: example_cache_eq)
  have reach: "reachable example_file example_cache"
    unfolding example_cache_def by (rule reach_getitem [OF reach_UserLoads])
  from invalid_id_raises_KeyError [OF invalid, of "PdObj 0 []" example_file] invalid absent reach
  show ?thesis by simp
qed

text \<open>
  C8 as stated fails for the subscript operator: it tests the overlay before the store's
  ids. After \<open>userloads.loads[4] = obj\<close>, through the dict the property \<open>loads\<close> hands out,
  \<open>userloads[4]\<close> returns \<open>obj\<close> although 4 is not a user id of the store.
\<close>

theorem getitem_returns_invalid_cached_id:
  "4 \<notin> set (user_ids (loads_setitem example_cache 4 (PdObj 0 []))) \<and>
   getitem (loads_setitem example_cache 4 (PdObj 0 [])) 4 =
     (Inr (PdObj 0 []), loads_setitem example_cache 4 (PdObj 0 []))"
  by (simp add: loads_setitem_def getitem_def example_cache_eq)

text \<open>
  C9. In every state a cache reaches from a constructor's empty overlay through the
  subscript operator, assignment, \<open>read\<close>, \<open>read_all\<close>, \<open>pop\<close> and \<open>close\<close>, every key of the
  overlay is a user id of the store.
\<close>

theorem reachable_overlay_valid:
  "reachable hfile ul \<Longrightarrow> dom (loads ul) \<subseteq> set (user_ids ul)"
proof -
  assume "reachable hfile ul"
  then have "overlay_valid ul"
  proof induction
    case reach_UserLoads
    show ?case by (simp add: overlay_valid_def UserLoads_def)
  next
    case reach_UserLoads_Experiment
    show ?case by (simp add: overlay_valid_def UserLoads_Experiment_def)
  next
    case (reach_read_all ul)
    then show ?case by (simp add: read_all_def read_each_overlay_valid)
  next
    case (reach_close ul)
    then show ?case by (simp add: overlay_valid_def close_def)
  qed (simp_all add: getitem_overlay_valid setitem_overlay_valid read_overlay_valid
        pop_overlay_valid)
  then show ?thesis by (simp add: overlay_valid_def)
qed

theorem reachable_overlay_valid_witness:
  "reachable example_file example_cache \<and>
   dom (loads example_cache) = {2} \<and>
   dom (loads example_cache) \<subseteq> set (user_ids example_cache)"
proof -
  have reach: "reachable example_file example_cache"
    unfolding example_cache_def by (rule reach_getitem [OF reach_UserLoads])
  have keys: "dom (loads example_cache) = {2}"
    by (simp add: example_cache_eq)
  from reachable_overlay_valid [OF reach] reach keys show ?thesis by simp
qed

subsection \<open>The random subset\<close>

text \<open>
  C5. With a seed given, the subset drawn is the first \<open>num_users\<close> elements of the seeded
  permutation of the ids: it is the same for every state of the global random generator,
  so two calls with the same seed, ids and count return the same sequence, and the global
  generator is left as it was.
\<close>

theorem seeded_subset_deterministic:
  "fst (random_identifier_subset permutation randint rs all_ids num_users (Some seed)) =
     fst (random_identifier_subset permutation randint rs' all_ids num_users (Some seed)) \<and>
   random_identifier_subset permutation randint rs all_ids num_users (Some seed) =
     (py_prefix (permutation seed all_ids) num_users, rs)"
  by (simp add: random_identifier_subset_def)

subsection \<open>Allocation, and what the cache holds\<close>

lemma get_value_eq:
  "get_value ul user_id =
     (case loads ul user_id of
        Some obj \<Rightarrow> Some (deref (heap ul) obj)
      | None \<Rightarrow> if user_id \<in> set (user_ids ul) \<and> store_open ul
                then id_tables (store_file ul) user_id else None)"
  by (auto simp: get_value_def getitem_def read_def store_getitem_def Let_def deref_def
      visible_def split: option.splits)

lemma extends_refl: "extends ul ul"
  by (simp add: extends_def)

lemma extends_trans: "extends ul ul1 \<Longrightarrow> extends ul1 ul2 \<Longrightarrow> extends ul ul2"
  by (auto simp: extends_def)

lemma getitem_extends: "getitem ul user_id = (r, ul1) \<Longrightarrow> extends ul ul1"
  by (auto simp: getitem_def read_def store_getitem_def Let_def extends_def
      split: option.splits if_splits)

lemma heap_wf_iff: "heap_wf ul \<longleftrightarrow> (\<forall>k obj. loads ul k = Some obj \<longrightarrow> buf obj < next_addr ul)"
  by (auto simp: heap_wf_def ran_def)

lemma getitem_heap_wf: "getitem ul user_id = (r, ul1) \<Longrightarrow> heap_wf ul \<Longrightarrow> heap_wf ul1"
  by (fastforce simp: getitem_def read_def store_getitem_def Let_def heap_wf_iff
      split: option.splits if_splits intro: less_SucI)


lemma getitem_get_value:
  assumes "getitem ul user_id = (r, ul1)" and "heap_wf ul"
  shows "get_value ul1 k = get_value ul k"
  using assms
  by (fastforce simp: get_value_eq getitem_def read_def store_getitem_def Let_def heap_wf_iff
      deref_def visible_def split: option.splits if_splits)



lemma deref_extends:
  "extends ul ul1 \<Longrightarrow> buf obj < next_addr ul \<Longrightarrow> deref (heap ul1) obj = deref (heap ul) obj"
  by (simp add: extends_def deref_def)

lemma load_slices_extends:
  "load_slices ul ids p = (r, ul1) \<Longrightarrow> extends ul ul1"
proof (induction ids arbitrary: ul r ul1)
  case Nil
  then show ?case by (simp add: extends_refl)
next
  case (Cons user rest)
  obtain r0 ul0 where g: "getitem ul user = (r0, ul0)"
    by (cases "getitem ul user")
  then have e0: "extends ul ul0"
    by (rule getitem_extends)
  show ?case
  proof (cases r0)
    case (Inl e)
    with g Cons.prems e0 show ?thesis by simp
  next
    case (Inr obj)
    obtain r2 ul2 where l: "load_slices ul0 rest p = (r2, ul2)"
      by (cases "load_slices ul0 rest p")
    then have "extends ul0 ul2"
      by (rule Cons.IH)
    with e0 have "extends ul ul2"
      by (rule extends_trans)
    moreover from g Inr l Cons.prems have "ul1 = ul2"
      by (cases r2) auto
    ultimately show ?thesis by simp
  qed
qed

lemma load_slices_heap_wf:
  "load_slices ul ids p = (r, ul1) \<Longrightarrow> heap_wf ul \<Longrightarrow> heap_wf ul1"
proof (induction ids arbitrary: ul r ul1)
  case Nil
  then show ?case by simp
next
  case (Cons user rest)
  obtain r0 ul0 where g: "getitem ul user = (r0, ul0)"
    by (cases "getitem ul user")
  have w0: "heap_wf ul0"
    by (rule getitem_heap_wf [OF g Cons.prems(2)])
  show ?case
  proof (cases r0)
    case (Inl e)
    with g Cons.prems w0 show ?thesis by simp
  next
    case (Inr obj)
    obtain r2 ul2 where l: "load_slices ul0 rest p = (r2, ul2)"
      by (cases "load_slices ul0 rest p")
    have "heap_wf ul2"
      by (rule Cons.IH [OF l w0])
    moreover from g Inr l Cons.prems have "ul1 = ul2"
      by (cases r2) auto
    ultimately show ?thesis by simp
  qed
qed

lemma load_slices_get_value:
  "load_slices ul ids p = (r, ul1) \<Longrightarrow> heap_wf ul \<Longrightarrow> get_value ul1 k = get_value ul k"
proof (induction ids arbitrary: ul r ul1)
  case Nil
  then show ?case by simp
next
  case (Cons user rest)
  obtain r0 ul0 where g: "getitem ul user = (r0, ul0)"
    by (cases "getitem ul user")
  have w0: "heap_wf ul0"
    by (rule getitem_heap_wf [OF g Cons.prems(2)])
  have v0: "get_value ul0 k = get_value ul k"
    by (rule getitem_get_value [OF g Cons.prems(2)])
  show ?case
  proof (cases r0)
    case (Inl e)
    with g Cons.prems v0 show ?thesis by simp
  next
    case (Inr obj)
    obtain r2 ul2 where l: "load_slices ul0 rest p = (r2, ul2)"
      by (cases "load_slices ul0 rest p")
    have "get_value ul2 k = get_value ul0 k"
      by (rule Cons.IH [OF l w0])
    moreover from g Inr l Cons.prems have "ul1 = ul2"
      by (cases r2) auto
    ultimately show ?thesis using v0 by simp
  qed
qed


lemma iadd_each_fields:
  "loads (iadd_each ul tot ss) = loads ul \<and> next_addr (iadd_each ul tot ss) = next_addr ul \<and>
   user_ids (iadd_each ul tot ss) = user_ids ul \<and>
   store_file (iadd_each ul tot ss) = store_file ul \<and>
   store_open (iadd_each ul tot ss) = store_open ul \<and>
   store_reads (iadd_each ul tot ss) = store_reads ul"
  by (induction ss arbitrary: ul) (simp_all add: iadd_def)

lemma iadd_each_heap_other:
  "a \<noteq> buf tot \<Longrightarrow> heap (iadd_each ul tot ss) a = heap ul a"
  by (induction ss arbitrary: ul) (simp_all add: iadd_def)


lemma extends_get_value:
  assumes "extends ul ul1" and "loads ul1 = loads ul" and "heap_wf ul"
  shows "get_value ul1 k = get_value ul k"
proof (cases "loads ul k")
  case None
  with assms show ?thesis
    by (simp add: get_value_eq extends_def)
next
  case (Some obj)
  with assms(3) have "buf obj < next_addr ul"
    by (simp add: heap_wf_iff)
  with assms(1) have "deref (heap ul1) obj = deref (heap ul) obj"
    by (rule deref_extends)
  with Some assms(2) show ?thesis
    by (simp add: get_value_eq)
qed

text \<open>The copy and the accumulation touch one new buffer only.\<close>

lemma accumulate_extends:
  assumes "copy ul1 first = (tot, ul2)"
  shows "extends ul1 (iadd_each ul2 tot rest) \<and> loads (iadd_each ul2 tot rest) = loads ul1 \<and>
         next_addr (iadd_each ul2 tot rest) = Suc (next_addr ul1) \<and> tot = PdObj (next_addr ul1) []"
proof -
  from assms have tot: "tot = PdObj (next_addr ul1) []"
    and ul2: "ul2 = ul1\<lparr>heap := (heap ul1)(next_addr ul1 := deref (heap ul1) first),
                          next_addr := Suc (next_addr ul1)\<rparr>"
    by (auto simp: copy_def)
  have "\<forall>a<next_addr ul1. heap (iadd_each ul2 tot rest) a = heap ul1 a"
    by (simp add: iadd_each_heap_other tot ul2)
  then show ?thesis
    by (simp add: extends_def iadd_each_fields tot ul2)
qed

lemma total_load_frame:
  assumes "total_load ul ids p = (r, ul')" and "heap_wf ul"
  shows "extends ul ul' \<and> heap_wf ul' \<and> (\<forall>k. get_value ul' k = get_value ul k)"
proof -
  obtain r1 ul1 where l: "load_slices ul ids p = (r1, ul1)"
    by (cases "load_slices ul ids p")
  have e1: "extends ul ul1"
    by (rule load_slices_extends [OF l])
  have w1: "heap_wf ul1"
    by (rule load_slices_heap_wf [OF l assms(2)])
  have v1: "\<forall>k. get_value ul1 k = get_value ul k"
    using load_slices_get_value [OF l assms(2)] by simp
  show ?thesis
  proof (cases r1)
    case (Inl e)
    with l assms(1) have "ul' = ul1"
      by (simp add: total_load_def)
    with e1 w1 v1 show ?thesis by simp
  next
    case (Inr series)
    show ?thesis
    proof (cases series)
      case Nil
      with Inr l assms(1) have "ul' = ul1"
        by (simp add: total_load_def)
      with e1 w1 v1 show ?thesis by simp
    next
      case (Cons first rest)
      obtain tot ul2 where c: "copy ul1 first = (tot, ul2)"
        by (cases "copy ul1 first")
      with Cons Inr l assms(1) have ul': "ul' = iadd_each ul2 tot rest"
        by (simp add: total_load_def)
      from accumulate_extends [OF c, of rest] ul'
      have e: "extends ul1 ul'" and same: "loads ul' = loads ul1"
        and n: "next_addr ul' = Suc (next_addr ul1)"
        by auto
      from e1 e have "extends ul ul'"
        by (rule extends_trans)
      moreover from w1 same n have "heap_wf ul'"
        by (auto simp: heap_wf_iff intro: less_SucI)
      moreover have "\<forall>k. get_value ul' k = get_value ul k"
        using extends_get_value [OF e same w1] v1 by simp
      ultimately show ?thesis by simp
    qed
  qed
qed


lemma example_cache_heap_wf: "heap_wf example_cache"
  by (simp add: heap_wf_def example_cache_eq)


subsection \<open>The total load\<close>

text \<open>
  C10. \<open>total_load\<close> changes no buffer that was allocated before the call, whether it
  returns or raises: the accumulation writes only into the copy of the first slice. Every
  entry of the overlay stays the same object, and after the call the rows of every cached
  object are the rows \<open>userloads[user_id]\<close> would have returned before the call (for a user
  read during the call, the rows of the store). The state before the call is one whose
  cached objects are allocated.
\<close>

theorem total_load_keeps_cached_series:
  assumes "heap_wf ul"
  shows "(\<forall>a<next_addr ul. heap (snd (total_load ul ids p)) a = heap ul a) \<and>
         (\<forall>user_id obj. loads ul user_id = Some obj \<longrightarrow>
            loads (snd (total_load ul ids p)) user_id = Some obj) \<and>
         (\<forall>user_id obj. loads (snd (total_load ul ids p)) user_id = Some obj \<longrightarrow>
            get_value ul user_id = Some (deref (heap (snd (total_load ul ids p))) obj))"
proof -
  obtain r ul' where t: "total_load ul ids p = (r, ul')"
    by (cases "total_load ul ids p")
  from total_load_frame [OF t assms]
  have e: "extends ul ul'" and v: "\<forall>k. get_value ul' k = get_value ul k"
    by simp_all
  have "get_value ul user_id = Some (deref (heap ul') obj)"
    if "loads ul' user_id = Some obj" for user_id obj
  proof -
    from that have "get_value ul' user_id = Some (deref (heap ul') obj)"
      by (simp add: get_value_eq)
    with v show ?thesis by simp
  qed
  with e t show ?thesis
    by (simp add: extends_def)
qed


theorem total_load_keeps_cached_series_witness:
  "heap_wf example_cache \<and> loads example_cache 2 = Some (PdObj 0 []) \<and>
   heap (snd (total_load example_cache [2, 1] ((2004, 2, 1, 0, 0), (2005, 7, 1, 0, 0)))) 0 =
     [((2004, 3, 1, 0, 0), Num 6), ((2006, 3, 1, 0, 0), Num 9)] \<and>
   loads (snd (total_load example_cache [2, 1] ((2004, 2, 1, 0, 0), (2005, 7, 1, 0, 0)))) 2 =
     Some (PdObj 0 [])"
proof -
  have cached: "loads example_cache 2 = Some (PdObj 0 [])"
    and allocated: "0 < next_addr example_cache"
    and rows: "heap example_cache 0 = [((2004, 3, 1, 0, 0), Num 6), ((2006, 3, 1, 0, 0), Num 9)]"
    by (simp_all add: example_cache_eq)
  from total_load_keeps_cached_series [OF example_cache_heap_wf,
      of "[2, 1]" "((2004, 2, 1, 0, 0), (2005, 7, 1, 0, 0))"] cached allocated rows
  show ?thesis
    using example_cache_heap_wf by simp
qed













subsection \<open>The mean load of a subset\<close>

lemma py_prefix_length:
  "length (py_prefix xs n) =
     (if 0 \<le> n then min (nat n) (length xs) else length xs - nat (- n))"
  by (auto simp: py_prefix_def)

lemma total_load_allocated:
  assumes "total_load ul ids p = (r, ul')"
  shows "extends ul ul' \<and> (\<forall>tot. r = Inr tot \<longrightarrow> buf tot < next_addr ul')"
proof -
  obtain r1 ul1 where l: "load_slices ul ids p = (r1, ul1)"
    by (cases "load_slices ul ids p")
  have e1: "extends ul ul1"
    by (rule load_slices_extends [OF l])
  show ?thesis
  proof (cases r1)
    case (Inl e)
    with l assms e1 show ?thesis
      by (auto simp: total_load_def)
  next
    case (Inr series)
    show ?thesis
    proof (cases series)
      case Nil
      with Inr l assms e1 show ?thesis
        by (auto simp: total_load_def)
    next
      case (Cons first rest)
      obtain tot ul2 where c: "copy ul1 first = (tot, ul2)"
        by (cases "copy ul1 first")
      with Cons Inr l assms have res: "r = Inr tot" "ul' = iadd_each ul2 tot rest"
        by (simp_all add: total_load_def)
      from accumulate_extends [OF c, of rest] res
      have e: "extends ul1 ul'" and n: "next_addr ul' = Suc (next_addr ul1)"
        and t: "tot = PdObj (next_addr ul1) []"
        by auto
      from e1 e have "extends ul ul'"
        by (rule extends_trans)
      with res n t show ?thesis by simp
    qed
  qed
qed

lemma total_load_each_allocated:
  "total_load_each ul ids ps = (r, ul') \<Longrightarrow>
     extends ul ul' \<and> (\<forall>ts. r = Inr ts \<longrightarrow> (\<forall>t \<in> set ts. buf t < next_addr ul'))"
proof (induction ps arbitrary: ul r ul')
  case Nil
  then show ?case by (auto simp: extends_refl)
next
  case (Cons p ps)
  obtain r1 ul1 where t: "total_load ul ids p = (r1, ul1)"
    by (cases "total_load ul ids p")
  from total_load_allocated [OF t]
  have e1: "extends ul ul1" and a1: "\<forall>tot. r1 = Inr tot \<longrightarrow> buf tot < next_addr ul1"
    by simp_all
  show ?case
  proof (cases r1)
    case (Inl e)
    with t Cons.prems e1 show ?thesis by auto
  next
    case (Inr tot)
    obtain r2 ul2 where rest: "total_load_each ul1 ids ps = (r2, ul2)"
      by (cases "total_load_each ul1 ids ps")
    from Cons.IH [OF rest]
    have e2: "extends ul1 ul2" and a2: "\<forall>ts. r2 = Inr ts \<longrightarrow> (\<forall>t \<in> set ts. buf t < next_addr ul2)"
      by simp_all
    from e1 e2 have e: "extends ul ul2"
      by (rule extends_trans)
    from a1 Inr e2 have "buf tot < next_addr ul2"
      by (auto simp: extends_def)
    with t Inr rest Cons.prems e a2 show ?thesis
      by (cases r2) auto
  qed
qed

lemma truediv_each_rows:
  "truediv_each ul ls n = (ms, ul') \<Longrightarrow> \<forall>l \<in> set ls. buf l < next_addr ul \<Longrightarrow>
     extends ul ul' \<and> (\<forall>m \<in> set ms. buf m < next_addr ul') \<and>
     map (deref (heap ul')) ms = map (\<lambda>l. div_frame (deref (heap ul) l) n) ls"
proof (induction ls arbitrary: ul ms ul')
  case Nil
  then show ?case by (auto simp: extends_refl)
next
  case (Cons l ls)
  let ?a = "next_addr ul"
  let ?m = "PdObj ?a []"
  let ?ul1 = "ul\<lparr>heap := (heap ul)(?a := div_frame (deref (heap ul) l) n), next_addr := Suc ?a\<rparr>"
  have e1: "extends ul ?ul1"
    by (simp add: extends_def)
  obtain ms2 ul2 where rest: "truediv_each ?ul1 ls n = (ms2, ul2)"
    by (cases "truediv_each ?ul1 ls n")
  have "\<forall>l \<in> set ls. buf l < next_addr ?ul1"
    using Cons.prems(2) by (auto intro: less_SucI)
  note ih = Cons.IH [OF rest this]
  from ih have e2: "extends ?ul1 ul2"
    by blast
  from ih have a2: "\<forall>m \<in> set ms2. buf m < next_addr ul2"
    by blast
  from ih have d2: "map (deref (heap ul2)) ms2 = map (\<lambda>l. div_frame (deref (heap ?ul1) l) n) ls"
    by blast
  have same: "map (\<lambda>l. div_frame (deref (heap ?ul1) l) n) ls =
      map (\<lambda>l. div_frame (deref (heap ul) l) n) ls"
    using Cons.prems(2) by (auto simp: deref_def)
  have "deref (heap ul2) ?m = deref (heap ?ul1) ?m"
    using e2 by (intro deref_extends) simp_all
  then have dm: "deref (heap ul2) ?m = div_frame (deref (heap ul) l) n"
    by (simp add: deref_def visible_def)
  from e2 have "buf ?m < next_addr ul2"
    by (simp add: extends_def)
  moreover from e1 e2 have "extends ul ul2"
    by (rule extends_trans)
  moreover from Cons.prems(1) rest have "ms = ?m # ms2" "ul' = ul2"
    by (simp_all add: truediv_def)
  ultimately show ?case
    using a2 d2 same dm by simp
qed

text \<open>With no user drawn the totals raise, so the division is never by zero.\<close>

lemma total_load_in_experiment_periods_no_users:
  "total_load_in_experiment_periods ul [] = (Inl IndexError, ul)"
  by (simp add: total_load_in_experiment_periods_def experiment_periods_def total_load_def)

lemma random_identifier_subset_length:
  assumes "\<forall>s xs. length (permutation s xs) = length xs"
  shows "length (fst (random_identifier_subset permutation randint rs all_ids num_users seed)) =
           (if 0 \<le> num_users then min (nat num_users) (length all_ids)
            else length all_ids - nat (- num_users))"
  using assms
  by (simp add: random_identifier_subset_def py_prefix_length split: option.splits prod.splits)

lemma mean_rows_of_totals:
  assumes "total_load_in_experiment_periods ul ids = (r, ul1)"
  shows "mean_rows
           (case (r, ul1) of
              (Inl e, ul1) \<Rightarrow> (Inl e, \<lparr>tempfeeder_exp_var = Some ul1, np_random_state = rs\<rparr>)
            | (Inr totals, ul1) \<Rightarrow>
                (case truediv_each ul1 totals n of
                   (means, ul2) \<Rightarrow>
                     (Inr means, \<lparr>tempfeeder_exp_var = Some ul2, np_random_state = rs\<rparr>))) =
         divided_rows (total_rows (r, ul1)) n"
proof (cases r)
  case (Inl e)
  then show ?thesis
    by (simp add: mean_rows_def total_rows_def divided_rows_def)
next
  case (Inr totals)
  obtain means ul2 where d: "truediv_each ul1 totals n = (means, ul2)"
    by (cases "truediv_each ul1 totals n")
  from assms Inr have "\<forall>t \<in> set totals. buf t < next_addr ul1"
    using total_load_each_allocated [of ul ids experiment_periods r ul1]
    by (simp add: total_load_in_experiment_periods_def)
  with d have "map (deref (heap ul2)) means = map (\<lambda>l. div_frame (deref (heap ul1) l) n) totals"
    using truediv_each_rows by blast
  with Inr d show ?thesis
    by (simp add: mean_rows_def total_rows_def divided_rows_def o_def)
qed


text \<open>
  C4, as amended. \<open>mean_experiment_load_for_user_subset\<close> takes the first \<open>num_users\<close>
  elements of the seeded permutation of the experiment's user ids, computes their total
  load in each experiment period, and divides each total by the number of ids it took
  (an exception of the totals is passed on). A permutation keeps the length of its
  argument, so that number is the smaller of \<open>num_users\<close> and the number of user ids when
  \<open>num_users\<close> is not negative: it is \<open>num_users\<close> as long as \<open>num_users\<close> does not exceed the
  number of user ids. This holds for a given seed and for a seed drawn from the global
  generator.
\<close>

theorem mean_divides_by_subset_size:
  assumes "\<forall>s xs. length (permutation s xs) = length xs"
  shows "mean_rows (mean_experiment_load_for_user_subset permutation randint file ms num_users seed) =
           divided_rows
             (total_rows (total_load_in_experiment_periods
                (tempfeeder_exp file (tempfeeder_exp_var ms))
                (fst (random_identifier_subset permutation randint (np_random_state ms)
                   (user_ids (tempfeeder_exp file (tempfeeder_exp_var ms))) num_users seed))))
             (length (fst (random_identifier_subset permutation randint (np_random_state ms)
                (user_ids (tempfeeder_exp file (tempfeeder_exp_var ms))) num_users seed))) \<and>
         length (fst (random_identifier_subset permutation randint (np_random_state ms)
            (user_ids (tempfeeder_exp file (tempfeeder_exp_var ms))) num_users seed)) =
           (if 0 \<le> num_users
            then min (nat num_users) (len (tempfeeder_exp file (tempfeeder_exp_var ms)))
            else len (tempfeeder_exp file (tempfeeder_exp_var ms)) - nat (- num_users))"
proof -
  let ?ul = "tempfeeder_exp file (tempfeeder_exp_var ms)"
  obtain ids rs1 where sub: "random_identifier_subset permutation randint (np_random_state ms)
      (user_ids ?ul) num_users seed = (ids, rs1)"
    by (cases "random_identifier_subset permutation randint (np_random_state ms)
      (user_ids ?ul) num_users seed")
  obtain r ul1 where tot: "total_load_in_experiment_periods ?ul ids = (r, ul1)"
    by (cases "total_load_in_experiment_periods ?ul ids")
  have "mean_rows (mean_experiment_load_for_user_subset permutation randint file ms num_users seed) =
      divided_rows (total_rows (r, ul1)) (length ids)"
    using mean_rows_of_totals [OF tot, of rs1 "length ids"]
    by (simp add: mean_experiment_load_for_user_subset_def sub tot)
  moreover have "length ids =
      (if 0 \<le> num_users then min (nat num_users) (len ?ul) else len ?ul - nat (- num_users))"
    using random_identifier_subset_length [OF assms, of randint "np_random_state ms"
        "user_ids ?ul" num_users seed]
    by (simp add: sub len_def)
  ultimately show ?thesis
    by (simp add: sub tot)
qed


lemmas run_defs = total_load_in_experiment_periods_def experiment_periods_def total_load_def
  copy_def iadd_def iadd_frame_def lookup_val_def deref_def visible_def getslice_def
  getitem_def read_def store_getitem_def truediv_def div_frame_def tempfeeder_exp_def
  random_identifier_subset_def py_prefix_def example_permutation_def mean_rows_def
  total_rows_def divided_rows_def example_module_def
  mean_experiment_load_for_user_subset_def round_defs

lemma example_subset:
  "fst (random_identifier_subset example_permutation example_randint 0
     (user_ids (UserLoads_Experiment example_file)) n (Some 1)) = py_prefix [2, 1] n"
  by (simp add: random_identifier_subset_def example_permutation_def UserLoads_Experiment_def
      example_file_def rotate_def)

lemma example_totals:
  "total_rows (total_load_in_experiment_periods (UserLoads_Experiment example_file) [2, 1]) =
     Inr [[((2004, 3, 1, 0, 0), Num 12)], [((2006, 3, 1, 0, 0), Num 12)]]"
  by (simp add: run_defs UserLoads_Experiment_def example_file_def)

theorem mean_divides_by_subset_size_witness:
  "(\<forall>s xs. length (example_permutation s xs) = length xs) \<and>
   mean_rows (mean_experiment_load_for_user_subset example_permutation example_randint
      example_file example_module 2 (Some 1)) =
     Inr [[((2004, 3, 1, 0, 0), Num 6)], [((2006, 3, 1, 0, 0), Num 6)]]"
proof -
  have keeps: "\<forall>s xs. length (example_permutation s xs) = length xs"
    by (simp add: example_permutation_def)
  have start: "tempfeeder_exp example_file (tempfeeder_exp_var example_module) =
      UserLoads_Experiment example_file" "np_random_state example_module = 0"
    by (simp_all add: tempfeeder_exp_def example_module_def)
  have drawn: "fst (random_identifier_subset example_permutation example_randint 0
      (user_ids (UserLoads_Experiment example_file)) 2 (Some 1)) = [2, 1]"
    by (simp add: example_subset py_prefix_def)
  have "divided_rows (total_rows (total_load_in_experiment_periods
      (UserLoads_Experiment example_file) [2, 1])) (length [2, 1 :: int]) =
      Inr [[((2004, 3, 1, 0, 0), Num 6)], [((2006, 3, 1, 0, 0), Num 6)]]"
    by (simp add: example_totals divided_rows_def div_frame_def round_defs)
  with mean_divides_by_subset_size [OF keeps, of example_randint example_file example_module
      2 "Some 1"]
  show ?thesis
    unfolding start drawn using keeps by simp
qed


text \<open>
  C4 as stated fails when the count exceeds the number of user ids: the experiment subset
  of the example file has two users, whose total is 12 in each period; with a count of 3
  the means are 6, the totals divided by 2, and not 4, the totals divided by 3.
\<close>

theorem mean_not_divided_by_count:
  "mean_rows (mean_experiment_load_for_user_subset example_permutation example_randint
      example_file example_module 3 (Some 1)) =
     Inr [[((2004, 3, 1, 0, 0), Num 6)], [((2006, 3, 1, 0, 0), Num 6)]] \<and>
   divided_rows (total_rows (total_load_in_experiment_periods (UserLoads_Experiment example_file)
      (fst (random_identifier_subset example_permutation example_randint 0
         (user_ids (UserLoads_Experiment example_file)) 3 (Some 1))))) 3 =
     Inr [[((2004, 3, 1, 0, 0), Num 4)], [((2006, 3, 1, 0, 0), Num 4)]] \<and>
   mean_rows (mean_experiment_load_for_user_subset example_permutation example_randint
      example_file example_module 3 (Some 1)) \<noteq>
   divided_rows (total_rows (total_load_in_experiment_periods (UserLoads_Experiment example_file)
      (fst (random_identifier_subset example_permutation example_randint 0
         (user_ids (UserLoads_Experiment example_file)) 3 (Some 1))))) 3"
proof -
  have drawn: "fst (random_identifier_subset example_permutation example_randint 0
      (user_ids (UserLoads_Experiment example_file)) 3 (Some 1)) = [2, 1]"
    by (simp add: example_subset py_prefix_def)
  have mean: "mean_rows (mean_experiment_load_for_user_subset example_permutation example_randint
      example_file example_module 3 (Some 1)) =
      Inr [[((2004, 3, 1, 0, 0), Num 6)], [((2006, 3, 1, 0, 0), Num 6)]]"
    by (simp add: run_defs UserLoads_Experiment_def example_file_def rotate_def)
  have third: "divided_rows (total_rows (total_load_in_experiment_periods
      (UserLoads_Experiment example_file) [2, 1])) 3 =
      Inr [[((2004, 3, 1, 0, 0), Num 4)], [((2006, 3, 1, 0, 0), Num 4)]]"
    by (simp add: example_totals divided_rows_def div_frame_def round_defs)
  show ?thesis
    unfolding drawn mean third by simp
qed

end
